theory Spec2Isabelle
  imports Complex_Main "HOL-Library.Sublist" "HOL-Library.Log_Nat"
begin

section \<open>Python values shared by both scripts\<close>

text \<open>
  Exceptions are values. \<open>TransportError\<close> stands for any exception of class
  \<open>Exception\<close> raised inside a client library call (connection refused, HTTP error,
  malformed reply); its argument is the message. \<open>KeyboardInterrupt\<close> is the only
  modelled exception that is not a subclass of \<open>Exception\<close>, so an
  \<open>except Exception\<close> clause does not catch it.
\<close>

datatype py_exc =
    FileNotFoundError
  | ValueError
  | KeyError
  | ImportError
  | TypeError
  | ZeroDivisionError
  | OverflowError
  | TransportError string
  | KeyboardInterrupt

fun is_Exception :: "py_exc \<Rightarrow> bool" where
  "is_Exception KeyboardInterrupt = False"
| "is_Exception _ = True"

definition nl :: string where
  "nl = [CHR 0x0A]"

text \<open>What an f-string prints for a value that is a string or \<open>None\<close>.\<close>

fun py_str :: "string option \<Rightarrow> string" where
  "py_str None = ''None''"
| "py_str (Some s) = s"


section \<open>run-test-suite.py\<close>

subsection \<open>Configuration and environment\<close>

text \<open>
  The YAML configuration is a dictionary read with \<open>.get\<close>; a key that may be missing
  is an option. Temperatures are the decimal numbers written in the file or in the
  source (\<open>0.0\<close>, \<open>0.7\<close>).
\<close>

record model_config =
  mc_name :: "string option"
  mc_temperature :: "rat option"

record api_config =
  base_url :: "string option"
  api_key_env :: "string option"
  api_key_default :: "string option"

record suite_config =
  sc_api :: "api_config option"
  sc_models :: "model_config list option"
  sc_questions_file :: "string option"
  sc_system_message :: "string option"

text \<open>One row of the questions file, as \<open>csv.DictReader\<close> yields it.\<close>

record question =
  q_id :: string
  q_section :: string
  q_text :: string
  q_expected :: string

text \<open>
  What the script finds on disk: whether \<open>test_suites/<name>\<close> exists, the parsed
  \<open>config.yaml\<close> (\<open>None\<close> when the file is missing) and, for each file name in the
  suite directory, its rows (\<open>None\<close> when there is no such file).

  Writing is the file system's answer too. \<open>write_transcript env model_name output\<close> is
  the outcome of lines 163 to 173 for a model: the file name is formatted from the
  configured pattern and the transcript is written under it; the exception, if any, is
  the one that \<open>filename_pattern.format\<close>, \<open>open\<close> or \<open>write\<close> raises (a pattern with an
  unknown field, a model name that is not a file name in the results directory).
  \<open>write_manifest env\<close> is the outcome of lines 187 and 188.
\<close>

record suite_env =
  suite_dir_exists :: bool
  config_file :: "suite_config option"
  question_files :: "string \<Rightarrow> question list option"
  write_transcript :: "string \<Rightarrow> string \<Rightarrow> py_exc option"
  write_manifest :: "py_exc option"

text \<open>
  The arguments of one \<open>client.chat.completions.create\<close> call of \<open>prompt\<close>.
\<close>

record chat_request =
  rq_model :: string
  rq_system :: string
  rq_user :: string
  rq_temperature :: rat

text \<open>
  The model endpoint is outside the program. \<open>gen_reply w n\<close> is what the \<open>n\<close>-th
  generation call of the run (counted from 0) does: it raises, or it returns
  \<open>response.choices[0].message.content\<close>, which is a string or \<open>None\<close>. The world
  records every request sent and every temperature line printed by the progress
  display.
\<close>

record gen_world =
  gen_reply :: "nat \<Rightarrow> py_exc + string option"
  gen_requests :: "chat_request list"
  shown_temperatures :: "rat list"

subsection \<open>prompt\<close>

definition prompt_request :: "model_config \<Rightarrow> string option \<Rightarrow> string \<Rightarrow> chat_request" where
  "prompt_request model_config system_message question =
     \<lparr> rq_model = (case mc_name model_config of None \<Rightarrow> ''gpt-3.5-turbo'' | Some n \<Rightarrow> n),
       rq_system = (case system_message of None \<Rightarrow> ''You are a helpful assistant.'' | Some m \<Rightarrow> m),
       rq_user = question,
       rq_temperature = (case mc_temperature model_config of None \<Rightarrow> 0 | Some t \<Rightarrow> t) \<rparr>"

definition prompt ::
  "gen_world \<Rightarrow> model_config \<Rightarrow> string option \<Rightarrow> string \<Rightarrow> (py_exc + string option) \<times> gen_world" where
  "prompt w model_config system_message question =
     (gen_reply w (length (gen_requests w)),
      w\<lparr>gen_requests := gen_requests w @ [prompt_request model_config system_message question]\<rparr>)"

subsection \<open>The transcript of one model\<close>

definition block :: "question \<Rightarrow> string option \<Rightarrow> string" where
  "block q result =
     ''---'' @ nl @
     ''NO. '' @ q_id q @ '' - '' @ q_section q @ nl @
     ''QUESTION: '' @ q_text q @ nl @
     ''EXPECTED ANSWER: '' @ q_expected q @ nl @
     ''ACTUAL ANSWER: '' @ py_str result @ nl"

text \<open>
  The loop over the rows (lines 142 to 158): one \<open>prompt\<close> call per row, then the block
  is appended to \<open>output\<close>. An exception of \<open>prompt\<close> leaves the loop.
\<close>

fun process_questions ::
  "gen_world \<Rightarrow> model_config \<Rightarrow> string option \<Rightarrow> question list \<Rightarrow> string
     \<Rightarrow> (py_exc + string) \<times> gen_world" where
  "process_questions w model_config system_message [] output = (Inr output, w)"
| "process_questions w model_config system_message (row # rows) output =
     (case prompt w model_config system_message (q_text row) of
        (Inl e, w') \<Rightarrow> (Inl e, w')
      | (Inr result, w') \<Rightarrow>
          process_questions w' model_config system_message rows (output @ block row result))"

subsection \<open>run_test_suite\<close>

text \<open>
  The loop over the models (lines 124 to 180). Each iteration prints the temperature
  line, builds the transcript from an empty \<open>output\<close> and writes it; an exception of the
  question loop or of the writing leaves the loop. The result collects the written
  transcripts with the model name they belong to. After the loop the manifest is
  written (lines 183 to 188).
\<close>

fun process_models ::
  "suite_env \<Rightarrow> gen_world \<Rightarrow> string option \<Rightarrow> question list \<Rightarrow> model_config list
     \<Rightarrow> (string \<times> string) list \<Rightarrow> (py_exc + (string \<times> string) list) \<times> gen_world" where
  "process_models env w system_message rows [] written =
     (case write_manifest env of
        Some e \<Rightarrow> (Inl e, w)
      | None \<Rightarrow> (Inr written, w))"
| "process_models env w system_message rows (model_config # rest) written =
     (let model_name = (case mc_name model_config of None \<Rightarrow> ''unknown'' | Some n \<Rightarrow> n);
          shown = (case mc_temperature model_config of None \<Rightarrow> 7 / 10 | Some t \<Rightarrow> t);
          w1 = w\<lparr>shown_temperatures := shown_temperatures w @ [shown]\<rparr>
      in case process_questions w1 model_config system_message rows [] of
           (Inl e, w2) \<Rightarrow> (Inl e, w2)
         | (Inr output, w2) \<Rightarrow>
            (case write_transcript env model_name output of
               Some e \<Rightarrow> (Inl e, w2)
             | None \<Rightarrow>
                 process_models env w2 system_message rows rest
                   (written @ [(model_name, output)])))"

definition run_test_suite ::
  "suite_env \<Rightarrow> gen_world \<Rightarrow> (py_exc + (string \<times> string) list) \<times> gen_world" where
  "run_test_suite env w =
     (if \<not> suite_dir_exists env then (Inl FileNotFoundError, w)
      else case config_file env of
        None \<Rightarrow> (Inl FileNotFoundError, w)
      | Some config \<Rightarrow>
         (case sc_api config of
            None \<Rightarrow> (Inl KeyError, w)
          | Some api \<Rightarrow>
             (case base_url api of
                None \<Rightarrow> (Inl KeyError, w)
              | Some url \<Rightarrow>
                 (let models = (case sc_models config of None \<Rightarrow> [] | Some ms \<Rightarrow> ms) in
                  if models = [] then (Inl ValueError, w)
                  else if list_ex (\<lambda>m. mc_name m = None) models then (Inl KeyError, w)
                  else
                    (let questions_file =
                           (case sc_questions_file config of None \<Rightarrow> ''questions.csv'' | Some f \<Rightarrow> f)
                     in case question_files env questions_file of
                          None \<Rightarrow> (Inl FileNotFoundError, w)
                        | Some rows \<Rightarrow>
                            process_models env w (sc_system_message config) rows models [])))))"

text \<open>
  Names for what the statements below say about a run: the name under which a model is
  recorded, the answer that call \<open>n\<close> of a world returns, whether the \<open>n\<close> calls from
  call \<open>k\<close> on all return, the blocks of a transcript whose first call is call \<open>k\<close>, and
  the requests of one model.
\<close>

definition model_name_of :: "model_config \<Rightarrow> string" where
  "model_name_of m = (case mc_name m of None \<Rightarrow> ''unknown'' | Some n \<Rightarrow> n)"

definition shown_of :: "model_config \<Rightarrow> rat" where
  "shown_of m = (case mc_temperature m of None \<Rightarrow> 7 / 10 | Some t \<Rightarrow> t)"

definition answer_at :: "gen_world \<Rightarrow> nat \<Rightarrow> string option" where
  "answer_at w n = (case gen_reply w n of Inl e \<Rightarrow> None | Inr a \<Rightarrow> a)"

definition replies_ok :: "gen_world \<Rightarrow> nat \<Rightarrow> nat \<Rightarrow> bool" where
  "replies_ok w k n = (\<forall>i < n. \<exists>a. gen_reply w (k + i) = Inr a)"

definition blocks_from :: "gen_world \<Rightarrow> nat \<Rightarrow> question list \<Rightarrow> string list" where
  "blocks_from w k rows = map (\<lambda>i. block (rows ! i) (answer_at w (k + i))) [0..<length rows]"

definition requests_of :: "string option \<Rightarrow> question list \<Rightarrow> model_config \<Rightarrow> chat_request list" where
  "requests_of system_message rows m = map (\<lambda>q. prompt_request m system_message (q_text q)) rows"


section \<open>score-results.py\<close>

subsection \<open>Strings\<close>

text \<open>
  A \<open>char\<close> is one code point of the range U+0000 to U+00FF. On this range the class
  \<open>\d\<close> of \<open>re\<close> is the ten ASCII digits, and the class \<open>\s\<close>, like \<open>str.isspace\<close> and
  the characters removed by \<open>str.strip()\<close>, is the twelve characters below.
\<close>

definition is_digit :: "char \<Rightarrow> bool" where
  "is_digit c = (c \<in> set ''0123456789'')"

definition is_space :: "char \<Rightarrow> bool" where
  "is_space c =
     (c \<in> set [CHR 0x09, CHR 0x0A, CHR 0x0B, CHR 0x0C, CHR 0x0D, CHR 0x1C, CHR 0x1D,
               CHR 0x1E, CHR 0x1F, CHR 0x20, CHR 0x85, CHR 0xA0])"

definition py_strip :: "string \<Rightarrow> string" where
  "py_strip s = rev (dropWhile is_space (rev (dropWhile is_space s)))"

text \<open>\<open>int(ds)\<close> for a string of ASCII digits: its decimal value, of any size.\<close>

definition digit_value :: "char \<Rightarrow> nat" where
  "digit_value c = of_char c - 48"

definition py_int :: "string \<Rightarrow> nat" where
  "py_int ds = foldl (\<lambda>n c. 10 * n + digit_value c) 0 ds"

subsection \<open>Regular expression search\<close>

text \<open>
  The fragment of \<open>re\<close> that the pattern of \<open>parse_score\<close> uses: a literal string,
  a greedy \<open>+\<close> over a character class, sequence, and a capturing group. \<open>rmatch r s caps\<close>
  lists, in the order in which the backtracking matcher tries them, the ways \<open>r\<close>
  matches at the start of \<open>s\<close>: the rest of the string after the match, and the
  captures so far followed by those of \<open>r\<close>, in the order in which the groups close
  (the order of their numbers when no group is nested in another). A greedy \<open>+\<close>
  tries the longest run first and gives characters back one by one.
\<close>

datatype charclass = Digit | Whitespace

fun in_class :: "charclass \<Rightarrow> char \<Rightarrow> bool" where
  "in_class Digit c = is_digit c"
| "in_class Whitespace c = is_space c"

datatype regex = Lit string | Plus charclass | Seq regex regex | Group regex

fun rmatch :: "regex \<Rightarrow> string \<Rightarrow> string list \<Rightarrow> (string \<times> string list) list" where
  "rmatch (Lit lit) s caps = (if prefix lit s then [(drop (length lit) s, caps)] else [])"
| "rmatch (Plus cl) s caps =
     map (\<lambda>n. (drop n s, caps)) (rev [1..<Suc (length (takeWhile (in_class cl) s))])"
| "rmatch (Seq a b) s caps =
     concat (map (\<lambda>(s', caps'). rmatch b s' caps') (rmatch a s caps))"
| "rmatch (Group a) s caps =
     map (\<lambda>(s', caps'). (s', caps' @ [take (length s - length s') s])) (rmatch a s caps)"

text \<open>
  \<open>re.search\<close> tries the start positions from left to right, the end of the string
  included, and returns the first match the matcher finds at the first position that
  has one; the result here is the list of the groups of that match.
\<close>

fun re_search :: "regex \<Rightarrow> string \<Rightarrow> string list option" where
  "re_search r [] = (case rmatch r [] [] of [] \<Rightarrow> None | (rest, caps) # _ \<Rightarrow> Some caps)"
| "re_search r (c # cs) =
     (case rmatch r (c # cs) [] of [] \<Rightarrow> re_search r cs | (rest, caps) # _ \<Rightarrow> Some caps)"

text \<open>The pattern \<^verbatim>\<open>(\d+)\s+out\s+of\s+(\d+)\<close> of line 201, compiled without flags.\<close>

definition score_pattern :: regex where
  "score_pattern =
     Seq (Group (Plus Digit))
    (Seq (Plus Whitespace)
    (Seq (Lit ''out'')
    (Seq (Plus Whitespace)
    (Seq (Lit ''of'')
    (Seq (Plus Whitespace)
         (Group (Plus Digit)))))))"

text \<open>
  The same pattern in the words of the specification. \<open>score_text m d1 d2\<close>: the string
  \<open>m\<close> is an integer \<open>d1\<close>, the words \<open>out\<close> and \<open>of\<close> and an integer \<open>d2\<close>, separated by
  whitespace. \<open>first_score s d1 d2\<close>: the first occurrence of such a text in \<open>s\<close> has the
  integers \<open>d1\<close> and \<open>d2\<close>, where the second integer extends as far as digits follow.
\<close>

definition all_digits :: "string \<Rightarrow> bool" where
  "all_digits ds \<longleftrightarrow> ds \<noteq> [] \<and> set ds \<subseteq> set ''0123456789''"

definition all_spaces :: "string \<Rightarrow> bool" where
  "all_spaces ws \<longleftrightarrow>
     ws \<noteq> [] \<and> set ws \<subseteq> {CHR 0x09, CHR 0x0A, CHR 0x0B, CHR 0x0C, CHR 0x0D, CHR 0x1C, CHR 0x1D,
                          CHR 0x1E, CHR 0x1F, CHR 0x20, CHR 0x85, CHR 0xA0}"

text \<open>The number that a string of digits denotes in base ten.\<close>

definition decimal :: "string \<Rightarrow> nat" where
  "decimal ds = (\<Sum>i < length ds. (of_char (ds ! i) - 48) * 10 ^ (length ds - 1 - i))"

definition score_text :: "string \<Rightarrow> string \<Rightarrow> string \<Rightarrow> bool" where
  "score_text m d1 d2 \<longleftrightarrow>
     (\<exists>w1 w2 w3. all_digits d1 \<and> all_spaces w1 \<and> all_spaces w2 \<and> all_spaces w3 \<and> all_digits d2
        \<and> m = d1 @ w1 @ ''out'' @ w2 @ ''of'' @ w3 @ d2)"

definition matches_at :: "string \<Rightarrow> nat \<Rightarrow> bool" where
  "matches_at s i \<longleftrightarrow> i \<le> length s \<and> (\<exists>m d1 d2. score_text m d1 d2 \<and> prefix m (drop i s))"


definition first_score :: "string \<Rightarrow> string \<Rightarrow> string \<Rightarrow> bool" where
  "first_score s d1 d2 \<longleftrightarrow>
     (\<exists>i m rest. i \<le> length s \<and> drop i s = m @ rest \<and> score_text m d1 d2
        \<and> (rest = [] \<or> hd rest \<notin> set ''0123456789'') \<and> (\<forall>j<i. \<not> matches_at s j))"

text \<open>
  The shape that the matcher checks from a start position, and what follows the last
  whitespace of a text of that shape (used to state what \<open>rmatch\<close> computes on the pattern).
\<close>

definition tail6 :: "string \<Rightarrow> string" where
  "tail6 t = dropWhile is_space (drop (length ''of'') (dropWhile is_space (drop (length ''out'') (dropWhile is_space
               (dropWhile is_digit t)))))"

definition shape_ok :: "string \<Rightarrow> bool" where
  "shape_ok t \<longleftrightarrow>
     (let r1 = dropWhile is_digit t; r2 = dropWhile is_space r1; r3 = drop (length ''out'') r2;
          r4 = dropWhile is_space r3; r5 = drop (length ''of'') r4
      in takeWhile is_digit t \<noteq> [] \<and> takeWhile is_space r1 \<noteq> [] \<and> prefix ''out'' r2
         \<and> takeWhile is_space r3 \<noteq> [] \<and> prefix ''of'' r4 \<and> takeWhile is_space r5 \<noteq> [])"

subsection \<open>Floating point\<close>

text \<open>
  A Python \<open>float\<close> is an IEEE 754 binary64 number. All floats of this script are
  non-negative or \<open>inf\<close>, and the model covers those: a finite float is the rational
  number it denotes. \<open>round_to_double q\<close> is the double nearest to \<open>q \<ge> 0\<close>, ties to
  the even significand, with 53 significant bits above \<open>2\<^sup>-\<^sup>1\<^sup>0\<^sup>2\<^sup>2\<close> and multiples of
  \<open>2\<^sup>-\<^sup>1\<^sup>0\<^sup>7\<^sup>4\<close> below; a result of \<open>2\<^sup>1\<^sup>0\<^sup>2\<^sup>4\<close> or more is an overflow, which the
  caller turns into \<open>OverflowError\<close> or \<open>inf\<close>. The integer \<open>0\<close> that the script mixes
  with floats is the float \<open>0.0\<close> here (\<open>0 == 0.0\<close> in Python).
\<close>

definition round_half_even :: "rat \<Rightarrow> int" where
  "round_half_even q =
     (let f = \<lfloor>q\<rfloor>; r = q - of_int f
      in if r < 1 / 2 then f else if 1 / 2 < r then f + 1 else if even f then f else f + 1)"

text \<open>The integer \<open>p\<close> with \<open>2\<^sup>p \<le> q < 2\<^sup>p\<^sup>+\<^sup>1\<close>, for \<open>q > 0\<close>.\<close>

definition ilog2 :: "rat \<Rightarrow> int" where
  "ilog2 q = (case quotient_of q of (a, b) \<Rightarrow>
                let d = bitlen a - bitlen b in if 2 powi d \<le> q then d else d - 1)"

definition round_to_double :: "rat \<Rightarrow> rat" where
  "round_to_double q =
     (if q \<le> 0 then 0
      else let e = max (ilog2 q - 52) (- 1074)
           in of_int (round_half_even (q / 2 powi e)) * 2 powi e)"

definition overflows :: "rat \<Rightarrow> bool" where
  "overflows r = (2 ^ 1024 \<le> r)"

datatype pyfloat = Finite rat | Infinity

text \<open>\<open>a / b\<close> on integers: correctly rounded, with the two exceptions of Python.\<close>

definition int_truediv :: "nat \<Rightarrow> nat \<Rightarrow> py_exc + pyfloat" where
  "int_truediv a b =
     (if b = 0 then Inl ZeroDivisionError
      else let r = round_to_double (of_nat a / of_nat b)
           in if overflows r then Inl OverflowError else Inr (Finite r))"

text \<open>\<open>x * y\<close> and \<open>x + y\<close> on floats overflow to \<open>inf\<close> without an exception.\<close>

fun float_mul :: "pyfloat \<Rightarrow> pyfloat \<Rightarrow> pyfloat" where
  "float_mul (Finite x) (Finite y) =
     (let r = round_to_double (x * y) in if overflows r then Infinity else Finite r)"
| "float_mul _ _ = Infinity"

fun float_add :: "pyfloat \<Rightarrow> pyfloat \<Rightarrow> pyfloat" where
  "float_add (Finite x) (Finite y) =
     (let r = round_to_double (x + y) in if overflows r then Infinity else Finite r)"
| "float_add _ _ = Infinity"

text \<open>
  \<open>x / n\<close> for a float \<open>x\<close> and the length \<open>n\<close> of a list: \<open>n\<close> is converted to a float
  first (a length is below \<open>2\<^sup>6\<^sup>3\<close>, so the conversion does not overflow).
\<close>

fun float_div_len :: "pyfloat \<Rightarrow> nat \<Rightarrow> py_exc + pyfloat" where
  "float_div_len x 0 = Inl ZeroDivisionError"
| "float_div_len Infinity (Suc n) = Inr Infinity"
| "float_div_len (Finite x) (Suc n) =
     Inr (Finite (round_to_double (x / round_to_double (of_nat (Suc n)))))"

text \<open>\<open>sum(xs)\<close>: the items are added from left to right, starting from \<open>0\<close>.\<close>

definition py_sum :: "pyfloat list \<Rightarrow> pyfloat" where
  "py_sum xs = foldl float_add (Finite 0) xs"

text \<open>
  \<open>round(x, 2)\<close>: the decimal with two places nearest to the exact value of \<open>x\<close>, ties
  to the even last digit, converted back to a double; \<open>inf\<close> rounds to itself.
\<close>

fun py_round2 :: "pyfloat \<Rightarrow> pyfloat" where
  "py_round2 Infinity = Infinity"
| "py_round2 (Finite x) = Finite (round_to_double (of_int (round_half_even (x * 100)) / 100))"

subsection \<open>parse_score\<close>

text \<open>
  The dictionary that \<open>parse_score\<close> returns. \<open>None\<close> in the first three fields is
  Python's \<open>None\<close>; \<open>parse_error\<close> is \<open>None\<close> when the dictionary has no such key.
\<close>

record run =
  correct :: "nat option"
  total :: "nat option"
  percentage :: "pyfloat option"
  raw_output :: string
  parse_error :: "string option"

definition parse_score :: "string \<Rightarrow> py_exc + run" where
  "parse_score result_text =
     (case re_search score_pattern result_text of
        Some [group1, group2] \<Rightarrow>
          (let correct_n = py_int group1;
               total_n = py_int group2
           in case (if total_n > 0
                    then (case int_truediv correct_n total_n of
                            Inl e \<Rightarrow> Inl e
                          | Inr q \<Rightarrow> Inr (float_mul q (Finite 100)))
                    else Inr (Finite 0)) of
                Inl e \<Rightarrow> Inl e
              | Inr pct \<Rightarrow>
                  Inr \<lparr> correct = Some correct_n, total = Some total_n,
                        percentage = Some (py_round2 pct),
                        raw_output = py_strip result_text, parse_error = None \<rparr>)
      | _ \<Rightarrow>
          Inr \<lparr> correct = None, total = None, percentage = None,
                raw_output = py_strip result_text,
                parse_error = Some ''Could not parse score from output'' \<rparr>)"

subsection \<open>calculate_statistics\<close>

record stats =
  mean_correct :: "pyfloat option"
  mean_percentage :: "pyfloat option"
  min_correct :: "nat option"
  max_correct :: "nat option"
  all_runs_parsed :: bool

definition calculate_statistics :: "run list \<Rightarrow> py_exc + stats" where
  "calculate_statistics runs =
     (let correct_scores = List.map_filter correct runs;
          percentages = List.map_filter percentage runs
      in case correct_scores of
           [] \<Rightarrow> Inr \<lparr> mean_correct = None, mean_percentage = None, min_correct = None,
                       max_correct = None, all_runs_parsed = False \<rparr>
         | c # cs \<Rightarrow>
            (case int_truediv (sum_list correct_scores) (length correct_scores) of
               Inl e \<Rightarrow> Inl e
             | Inr mc \<Rightarrow>
                (case float_div_len (py_sum percentages) (length percentages) of
                   Inl e \<Rightarrow> Inl e
                 | Inr mp \<Rightarrow>
                     Inr \<lparr> mean_correct = Some (py_round2 mc),
                           mean_percentage = Some (py_round2 mp),
                           min_correct = Some (fold min cs c),
                           max_correct = Some (fold max cs c),
                           all_runs_parsed = (length correct_scores = length runs) \<rparr>)))"

text \<open>The summary as \<open>json.dump\<close> writes it: the keys with their JSON values.\<close>

datatype json = JNull | JBool bool | JInt nat | JFloat pyfloat

definition summary_items :: "stats \<Rightarrow> (string \<times> json) list" where
  "summary_items st =
     [(''mean_correct'', case mean_correct st of None \<Rightarrow> JNull | Some x \<Rightarrow> JFloat x),
      (''mean_percentage'', case mean_percentage st of None \<Rightarrow> JNull | Some x \<Rightarrow> JFloat x),
      (''min_correct'', case min_correct st of None \<Rightarrow> JNull | Some n \<Rightarrow> JInt n),
      (''max_correct'', case max_correct st of None \<Rightarrow> JNull | Some n \<Rightarrow> JInt n),
      (''all_runs_parsed'', JBool (all_runs_parsed st))]"


subsection \<open>The judge client\<close>

text \<open>
  The scoring configuration (\<open>scoring_config.yaml\<close>), read with \<open>.get\<close>, and what the
  script finds around it: the text of the results file (\<open>None\<close> when the file is
  missing), whether the \<open>anthropic\<close> package can be imported, the environment variable
  \<open>ANTHROPIC_API_KEY\<close>, and the outcome of writing the scores file (lines 313 to 318).
\<close>

record scoring_config =
  cfg_api :: "string option"
  cfg_endpoint :: "string option"
  cfg_model :: "string option"
  cfg_repetitions :: "int option"

record scoring_env =
  results_file :: "string option"
  anthropic_installed :: bool
  anthropic_api_key :: "string option"
  write_scores :: "py_exc option"

datatype client = AnthropicClient | LocalClient

definition create_client :: "scoring_config \<Rightarrow> scoring_env \<Rightarrow> py_exc + client" where
  "create_client config env =
     (if cfg_api config = Some ''anthropic'' then
        (if \<not> anthropic_installed env then Inl ImportError
         else if (case anthropic_api_key env of None \<Rightarrow> [] | Some key \<Rightarrow> key) = [] then Inl ValueError
         else Inr AnthropicClient)
      else if cfg_api config = Some ''local'' then Inr LocalClient
      else Inl ValueError)"

definition EVALUATION_PROMPT :: string where
  "EVALUATION_PROMPT =
     ''You are a research assistant, evaluating the responses to some exam questions on Kubernetes.'' @ nl @
     nl @
     ''The user submits questions and answers, both the expected answers as well as the actual answers provided by a candidate.'' @ nl @
     nl @
     ''Your task is to evaluate whether the actual answer is correct or not, and then count the number of correct answers. Any single answer may only be correct or incorrect.'' @ nl @
     nl @
     ''Correct means that the answer contains the necessary information. A correct answer is not necessarily identical to the expected answer.'' @ nl @
     nl @
     ''Example input:'' @ nl @
     nl @
     ''---'' @ nl @
     ''NO. 2 - Setup & Aliases'' @ nl @
     ''QUESTION: How do you enable bash autocompletion for the '' @ [CHR 0x27] @ ''k'' @ [CHR 0x27] @ '' alias?'' @ nl @
     ''EXPECTED ANSWER: complete -F __start_kubectl k'' @ nl @
     ''ACTUAL ANSWER: ```bash'' @ nl @
     ''source <(kubectl completion bash)'' @ nl @
     ''alias k=kubectl'' @ nl @
     ''complete -F __start_kubectl k'' @ nl @
     ''```'' @ nl @
     nl @
     ''Example output:'' @ nl @
     nl @
     ''58 out of 100 answers are correct.'' @ nl"

text \<open>
  One call of the client library. Both scripts' endpoints take the model, the system
  prompt and the user content; \<open>max_tokens\<close> is passed to Anthropic only. The streaming
  and the blocking call of an evaluation differ in \<open>jc_streaming\<close> alone.
\<close>

record judge_call =
  jc_client :: client
  jc_streaming :: bool
  jc_model :: "string option"
  jc_max_tokens :: "nat option"
  jc_system :: string
  jc_user :: string

text \<open>
  The judge is outside the program. The \<open>n\<close>-th call of the run (counted from 0), when
  it is a streaming call, yields the chunks \<open>fst (stream_reply w n)\<close> and then ends, or
  raises \<open>snd (stream_reply w n)\<close>; a chunk is its text, or \<open>None\<close> where the delta has no
  content. An exception of the call itself is a stream with no chunks. When it is a
  blocking call, it does \<open>create_reply w n\<close>: it raises, or the text of the first
  content block or choice is a string or \<open>None\<close>.
\<close>

record judge_world =
  stream_reply :: "nat \<Rightarrow> string option list \<times> py_exc option"
  create_reply :: "nat \<Rightarrow> py_exc + string option"
  judge_calls :: "judge_call list"

text \<open>
  The loop of lines 101 to 104: every text is appended; a chunk that is not a string
  makes \<open>+=\<close> raise \<open>TypeError\<close>.
\<close>

fun consume_text_stream :: "string option list \<Rightarrow> py_exc option \<Rightarrow> string \<Rightarrow> py_exc + string" where
  "consume_text_stream [] None full_response = Inr full_response"
| "consume_text_stream [] (Some e) full_response = Inl e"
| "consume_text_stream (None # chunks) fin full_response = Inl TypeError"
| "consume_text_stream (Some text # chunks) fin full_response =
     consume_text_stream chunks fin (full_response @ text)"

text \<open>The loop of lines 156 to 161: a chunk without content, or with empty content, is skipped.\<close>

fun consume_chunks :: "string option list \<Rightarrow> py_exc option \<Rightarrow> string \<Rightarrow> py_exc + string" where
  "consume_chunks [] None full_response = Inr full_response"
| "consume_chunks [] (Some e) full_response = Inl e"
| "consume_chunks (None # chunks) fin full_response = consume_chunks chunks fin full_response"
| "consume_chunks (Some content_chunk # chunks) fin full_response =
     (if content_chunk = [] then consume_chunks chunks fin full_response
      else consume_chunks chunks fin (full_response @ content_chunk))"

definition evaluate_with_anthropic ::
  "scoring_config \<Rightarrow> judge_world \<Rightarrow> string \<Rightarrow> (py_exc + string option) \<times> judge_world" where
  "evaluate_with_anthropic config w content =
     (let call = \<lparr> jc_client = AnthropicClient, jc_streaming = True, jc_model = cfg_model config,
                   jc_max_tokens = Some 4096, jc_system = EVALUATION_PROMPT, jc_user = content \<rparr>;
          n = length (judge_calls w);
          w1 = w\<lparr>judge_calls := judge_calls w @ [call]\<rparr>
      in case consume_text_stream (fst (stream_reply w n)) (snd (stream_reply w n)) [] of
           Inr full_response \<Rightarrow> (Inr (Some full_response), w1)
         | Inl e \<Rightarrow>
             if is_Exception e
             then (create_reply w (Suc n),
                   w1\<lparr>judge_calls := judge_calls w1 @ [call\<lparr>jc_streaming := False\<rparr>]\<rparr>)
             else (Inl e, w1))"

definition evaluate_with_local ::
  "scoring_config \<Rightarrow> judge_world \<Rightarrow> string \<Rightarrow> (py_exc + string option) \<times> judge_world" where
  "evaluate_with_local config w content =
     (let call = \<lparr> jc_client = LocalClient, jc_streaming = True, jc_model = cfg_model config,
                   jc_max_tokens = None, jc_system = EVALUATION_PROMPT, jc_user = content \<rparr>;
          n = length (judge_calls w);
          w1 = w\<lparr>judge_calls := judge_calls w @ [call]\<rparr>
      in case consume_chunks (fst (stream_reply w n)) (snd (stream_reply w n)) [] of
           Inr full_response \<Rightarrow> (Inr (Some full_response), w1)
         | Inl e \<Rightarrow>
             if is_Exception e
             then (create_reply w (Suc n),
                   w1\<lparr>judge_calls := judge_calls w1 @ [call\<lparr>jc_streaming := False\<rparr>]\<rparr>)
             else (Inl e, w1))"

definition evaluate_results ::
  "scoring_config \<Rightarrow> judge_world \<Rightarrow> string \<Rightarrow> (py_exc + string option) \<times> judge_world" where
  "evaluate_results config w content =
     (if cfg_api config = Some ''anthropic'' then evaluate_with_anthropic config w content
      else evaluate_with_local config w content)"

subsection \<open>score_results_file\<close>

text \<open>
  The loop of lines 279 to 290, with the number of repetitions still to run. A result
  that is not a string makes \<open>re.search\<close> raise \<open>TypeError\<close>.
\<close>

fun run_evaluations ::
  "scoring_config \<Rightarrow> judge_world \<Rightarrow> string \<Rightarrow> nat \<Rightarrow> run list \<Rightarrow> (py_exc + run list) \<times> judge_world" where
  "run_evaluations config w content 0 runs = (Inr runs, w)"
| "run_evaluations config w content (Suc k) runs =
     (case evaluate_results config w content of
        (Inl e, w') \<Rightarrow> (Inl e, w')
      | (Inr None, w') \<Rightarrow> (Inl TypeError, w')
      | (Inr (Some result_text), w') \<Rightarrow>
         (case parse_score result_text of
            Inl e \<Rightarrow> (Inl e, w')
          | Inr parsed \<Rightarrow> run_evaluations config w' content k (runs @ [parsed])))"

record score_output =
  out_scoring_api :: "string option"
  out_scoring_model :: "string option"
  out_repetitions :: int
  out_runs :: "run list"
  out_summary :: stats

text \<open>
  \<open>range(repetitions)\<close> is empty for a negative count. The timestamp and the file names
  of the metadata are left out of the output.
\<close>

definition score_results_file ::
  "scoring_config \<Rightarrow> scoring_env \<Rightarrow> judge_world \<Rightarrow> (py_exc + score_output) \<times> judge_world" where
  "score_results_file config env w =
     (case results_file env of
        None \<Rightarrow> (Inl FileNotFoundError, w)
      | Some content \<Rightarrow>
         (let repetitions = (case cfg_repetitions config of None \<Rightarrow> 3 | Some r \<Rightarrow> r) in
          case create_client config env of
            Inl e \<Rightarrow> (Inl e, w)
          | Inr client \<Rightarrow>
             (case run_evaluations config w content (nat repetitions) [] of
                (Inl e, w') \<Rightarrow> (Inl e, w')
              | (Inr runs, w') \<Rightarrow>
                 (case calculate_statistics runs of
                    Inl e \<Rightarrow> (Inl e, w')
                  | Inr stats \<Rightarrow>
                     (case write_scores env of
                        Some e \<Rightarrow> (Inl e, w')
                      | None \<Rightarrow>
                          (Inr \<lparr> out_scoring_api = cfg_api config,
                                 out_scoring_model = cfg_model config,
                                 out_repetitions = repetitions,
                                 out_runs = runs,
                                 out_summary = stats \<rparr>, w'))))))"


section \<open>Properties of run-test-suite.py\<close>

lemma blocks_from_Cons:
  "blocks_from w k (r # rs) = block r (answer_at w k) # blocks_from w (Suc k) rs"
proof -
  have "[0..<length (r # rs)] = 0 # map Suc [0..<length rs]"
    by (simp add: upt_conv_Cons map_Suc_upt del: upt_Suc)
  then show ?thesis
    by (simp add: blocks_from_def comp_def del: upt_Suc)
qed

lemma replies_ok_Suc:
  "replies_ok w k (Suc n) \<longleftrightarrow> (\<exists>a. gen_reply w k = Inr a) \<and> replies_ok w (Suc k) n"
  unfolding replies_ok_def
  by (auto simp: less_Suc_eq_0_disj)


lemma process_questions_iff:
  "process_questions w mc sm rows out = (Inr output, w') \<longleftrightarrow>
     replies_ok w (length (gen_requests w)) (length rows)
     \<and> output = out @ concat (blocks_from w (length (gen_requests w)) rows)
     \<and> w' = w\<lparr>gen_requests := gen_requests w @ map (\<lambda>q. prompt_request mc sm (q_text q)) rows\<rparr>"
proof (induction rows arbitrary: w out)
  case Nil
  then show ?case by (auto simp: replies_ok_def blocks_from_def)
next
  case (Cons row rows)
  show ?case
  proof (cases "gen_reply w (length (gen_requests w))")
    case (Inl e)
    then show ?thesis
      by (simp add: prompt_def replies_ok_Suc)
  next
    case (Inr a)
    let ?w1 = "w\<lparr>gen_requests := gen_requests w @ [prompt_request mc sm (q_text row)]\<rparr>"
    have ans: "answer_at w (length (gen_requests w)) = a"
      by (simp add: answer_at_def Inr)
    have same: "replies_ok ?w1 k n = replies_ok w k n" "blocks_from ?w1 k rows = blocks_from w k rows" for k n
      by (simp_all add: replies_ok_def blocks_from_def answer_at_def)
    have "process_questions w mc sm (row # rows) out = process_questions ?w1 mc sm rows (out @ block row a)"
      by (simp add: prompt_def Inr)
    then show ?thesis
      by (simp add: Cons.IH same replies_ok_Suc Inr blocks_from_Cons ans)
  qed
qed


lemma upt_shift: "map f [0..<Suc n] = f 0 # map (\<lambda>j. f (Suc j)) [0..<n]"
proof -
  have "[0..<Suc n] = 0 # map Suc [0..<n]"
    by (simp add: upt_conv_Cons map_Suc_upt del: upt_Suc)
  then show ?thesis
    by (simp add: comp_def del: upt_Suc)
qed

lemma process_models_iff:
  "process_models env w sm rows models written = (Inr res, w') \<longleftrightarrow>
     (\<forall>j < length models. replies_ok w (length (gen_requests w) + j * length rows) (length rows))
     \<and> (\<forall>j < length models.
           write_transcript env (model_name_of (models ! j))
             (concat (blocks_from w (length (gen_requests w) + j * length rows) rows)) = None)
     \<and> write_manifest env = None
     \<and> res = written @ map (\<lambda>j. (model_name_of (models ! j),
                 concat (blocks_from w (length (gen_requests w) + j * length rows) rows)))
               [0..<length models]
     \<and> w' = \<lparr> gen_reply = gen_reply w,
               gen_requests = gen_requests w @ concat (map (requests_of sm rows) models),
               shown_temperatures = shown_temperatures w @ map shown_of models \<rparr>"
proof (induction models arbitrary: w written)
  case Nil
  show ?case
    by (cases "write_manifest env") auto
next
  case (Cons m ms)
  let ?k = "length (gen_requests w)"
  let ?N = "length rows"
  let ?w1 = "w\<lparr>shown_temperatures := shown_temperatures w @ [shown_of m]\<rparr>"
  let ?out = "concat (blocks_from w ?k rows)"
  let ?w2 = "w\<lparr>gen_requests := gen_requests w @ requests_of sm rows m,
               shown_temperatures := shown_temperatures w @ [shown_of m]\<rparr>"
  have same: "replies_ok ?w2 k n = replies_ok w k n" "blocks_from ?w2 k rows = blocks_from w k rows" for k n
    by (simp_all add: replies_ok_def blocks_from_def answer_at_def)
  have same1: "replies_ok ?w1 k n = replies_ok w k n" "blocks_from ?w1 k rows = blocks_from w k rows" for k n
    by (simp_all add: replies_ok_def blocks_from_def answer_at_def)
  have w12: "?w1\<lparr>gen_requests := gen_requests ?w1 @ map (\<lambda>q. prompt_request m sm (q_text q)) rows\<rparr> = ?w2"
    by (simp add: requests_of_def)
  have len2: "length (gen_requests ?w2) = ?k + ?N"
    by (simp add: requests_of_def)
  have idx: "?k + ?N + j * ?N = ?k + Suc j * ?N" for j
    by simp
  have all_shift: "(\<forall>j < length (m # ms). P j) \<longleftrightarrow> P 0 \<and> (\<forall>j < length ms. P (Suc j))" for P
    by (auto simp: less_Suc_eq_0_disj)
  show ?case
  proof (cases "replies_ok w ?k ?N")
    case False
    have "\<not> (\<exists>out w2. process_questions ?w1 m sm rows [] = (Inr out, w2))"
      using False by (simp add: process_questions_iff same1)
    then have "fst (process_models env w sm rows (m # ms) written) \<noteq> Inr res"
      by (auto simp: Let_def shown_of_def model_name_of_def split: prod.splits sum.splits option.splits)
    moreover have "\<not> (\<forall>j < length (m # ms). replies_ok w (?k + j * ?N) ?N)"
      using False by (auto simp: all_shift)
    ultimately show ?thesis by auto
  next
    case True
    have pq: "process_questions ?w1 m sm rows [] = (Inr ?out, ?w2)"
      using True unfolding process_questions_iff w12 by (simp add: same1)
    show ?thesis
    proof (cases "write_transcript env (model_name_of m) ?out")
      case (Some e)
      have "process_models env w sm rows (m # ms) written = (Inl e, ?w2)"
        using pq Some by (simp add: Let_def shown_of_def model_name_of_def)
      moreover have "\<not> (\<forall>j < length (m # ms).
           write_transcript env (model_name_of ((m # ms) ! j))
             (concat (blocks_from w (?k + j * ?N) rows)) = None)"
        using Some by (auto simp: all_shift)
      ultimately show ?thesis by auto
    next
      case None
      have step: "process_models env w sm rows (m # ms) written
                  = process_models env ?w2 sm rows ms (written @ [(model_name_of m, ?out)])"
        using pq None by (simp add: Let_def shown_of_def model_name_of_def)
      show ?thesis
        unfolding step Cons.IH len2 same idx
        using True None
        by (simp add: All_less_Suc2 upt_shift del: upt_Suc)
    qed
  qed
qed



lemma run_test_suite_loop:
  assumes "suite_dir_exists env" "config_file env = Some config"
    and "sc_api config = Some api" "base_url api = Some url"
    and "sc_models config = Some models" "models \<noteq> []" "\<forall>m \<in> set models. mc_name m \<noteq> None"
    and "question_files env (case sc_questions_file config of None \<Rightarrow> ''questions.csv'' | Some f \<Rightarrow> f)
           = Some rows"
  shows "run_test_suite env w = process_models env w (sc_system_message config) rows models []"
  using assms by (auto simp: run_test_suite_def Let_def list_ex_iff)


lemma block_explicit:
  "block q a =
     ''---'' @ [CHR 0x0A] @ ''NO. '' @ q_id q @ '' - '' @ q_section q @ [CHR 0x0A]
     @ ''QUESTION: '' @ q_text q @ [CHR 0x0A]
     @ ''EXPECTED ANSWER: '' @ q_expected q @ [CHR 0x0A]
     @ ''ACTUAL ANSWER: '' @ (case a of None \<Rightarrow> ''None'' | Some t \<Rightarrow> t) @ [CHR 0x0A]"
  by (cases a) (simp_all add: block_def nl_def)

lemma requests_of_explicit:
  "requests_of sm rows m =
     map (\<lambda>q. \<lparr> rq_model = (case mc_name m of None \<Rightarrow> ''gpt-3.5-turbo'' | Some n \<Rightarrow> n),
                rq_system = (case sm of None \<Rightarrow> ''You are a helpful assistant.'' | Some s \<Rightarrow> s),
                rq_user = q_text q,
                rq_temperature = (case mc_temperature m of None \<Rightarrow> 0 | Some t \<Rightarrow> t) \<rparr>) rows"
  by (simp add: requests_of_def prompt_request_def)

lemma reply_answer_at: "(\<exists>a. gen_reply w n = Inr a) \<longleftrightarrow> gen_reply w n = Inr (answer_at w n)"
  by (cases "gen_reply w n") (simp_all add: answer_at_def)

lemma replies_ok_answers:
  "(\<forall>j < M. replies_ok w (k + j * N) N)
   \<longleftrightarrow> (\<forall>j < M. \<forall>i < N. gen_reply w (k + j * N + i) = Inr (answer_at w (k + j * N + i)))"
  by (simp add: replies_ok_def reply_answer_at)


lemma transcripts_explicit:
  assumes "\<forall>j < M. \<forall>i < length rows. gen_reply w (k + j * length rows + i) = Inr (answers j i)"
  shows "map (\<lambda>j. (model_name_of (models ! j), concat (blocks_from w (k + j * length rows) rows))) [0..<M]
         = map (\<lambda>j. (case mc_name (models ! j) of None \<Rightarrow> ''unknown'' | Some n \<Rightarrow> n,
                 concat (map (\<lambda>i.
                   ''---'' @ [CHR 0x0A] @ ''NO. '' @ q_id (rows ! i) @ '' - '' @ q_section (rows ! i) @ [CHR 0x0A]
                   @ ''QUESTION: '' @ q_text (rows ! i) @ [CHR 0x0A]
                   @ ''EXPECTED ANSWER: '' @ q_expected (rows ! i) @ [CHR 0x0A]
                   @ ''ACTUAL ANSWER: '' @ (case answers j i of None \<Rightarrow> ''None'' | Some t \<Rightarrow> t) @ [CHR 0x0A])
                  [0..<length rows]))) [0..<M]"
proof (rule map_cong[OF refl])
  fix j assume "j \<in> set [0..<M]"
  then have j: "j < M" by simp
  have "answer_at w (k + j * length rows + i) = answers j i" if "i < length rows" for i
    using assms j that by (simp add: answer_at_def)
  then have "blocks_from w (k + j * length rows) rows
             = map (\<lambda>i. block (rows ! i) (answers j i)) [0..<length rows]"
    by (simp add: blocks_from_def)
  then show "(model_name_of (models ! j), concat (blocks_from w (k + j * length rows) rows))
         = (case mc_name (models ! j) of None \<Rightarrow> ''unknown'' | Some n \<Rightarrow> n,
                 concat (map (\<lambda>i.
                   ''---'' @ [CHR 0x0A] @ ''NO. '' @ q_id (rows ! i) @ '' - '' @ q_section (rows ! i) @ [CHR 0x0A]
                   @ ''QUESTION: '' @ q_text (rows ! i) @ [CHR 0x0A]
                   @ ''EXPECTED ANSWER: '' @ q_expected (rows ! i) @ [CHR 0x0A]
                   @ ''ACTUAL ANSWER: '' @ (case answers j i of None \<Rightarrow> ''None'' | Some t \<Rightarrow> t) @ [CHR 0x0A])
                  [0..<length rows]))"
    by (simp only: block_explicit model_name_of_def)
qed

subsection \<open>Claim C7: one answer block per question, in source order\<close>

text \<open>
  Claim C7. Take a suite whose setup is complete: the directory and the configuration
  exist, the base URL and at least one model are configured, every model has a name,
  and the question source holds the N rows \<open>rows\<close>. Then the run completes exactly when
  every generation call returns an answer and every file is written, and the
  transcript written for the \<open>j\<close>-th model is then the concatenation of exactly N blocks,
  the \<open>i\<close>-th of which is the five lines
  \<^verbatim>\<open>---\<close>, \<^verbatim>\<open>NO. <id> - <section>\<close>, \<^verbatim>\<open>QUESTION: <question>\<close>,
  \<^verbatim>\<open>EXPECTED ANSWER: <expected>\<close>, \<^verbatim>\<open>ACTUAL ANSWER: <actual>\<close>
  for the \<open>i\<close>-th row and the answer of the \<open>i\<close>-th call made for that model (\<^verbatim>\<open>None\<close> when
  the reply has no content). One request per model and row was sent, models in the
  configured order and rows in the order of the source.
\<close>

theorem transcript_one_block_per_question:
  assumes "suite_dir_exists env" "config_file env = Some config"
    and "sc_api config = Some api" "base_url api = Some url"
    and "sc_models config = Some models" "models \<noteq> []" "\<forall>m \<in> set models. mc_name m \<noteq> None"
    and "question_files env (case sc_questions_file config of None \<Rightarrow> ''questions.csv'' | Some f \<Rightarrow> f)
           = Some rows"
  shows "run_test_suite env w = (Inr written, w') \<longleftrightarrow>
     (\<exists>answers.
        (\<forall>j < length models. \<forall>i < length rows.
            gen_reply w (length (gen_requests w) + j * length rows + i) = Inr (answers j i))
        \<and> written =
            map (\<lambda>j. (case mc_name (models ! j) of None \<Rightarrow> ''unknown'' | Some n \<Rightarrow> n,
                 concat (map (\<lambda>i.
                   ''---'' @ [CHR 0x0A] @ ''NO. '' @ q_id (rows ! i) @ '' - '' @ q_section (rows ! i) @ [CHR 0x0A]
                   @ ''QUESTION: '' @ q_text (rows ! i) @ [CHR 0x0A]
                   @ ''EXPECTED ANSWER: '' @ q_expected (rows ! i) @ [CHR 0x0A]
                   @ ''ACTUAL ANSWER: '' @ (case answers j i of None \<Rightarrow> ''None'' | Some t \<Rightarrow> t) @ [CHR 0x0A])
                  [0..<length rows]))) [0..<length models])
     \<and> (\<forall>j < length models. write_transcript env (fst (written ! j)) (snd (written ! j)) = None)
     \<and> write_manifest env = None
     \<and> w' = \<lparr> gen_reply = gen_reply w,
               gen_requests = gen_requests w @ concat (map (\<lambda>m. map (\<lambda>q.
                   \<lparr> rq_model = (case mc_name m of None \<Rightarrow> ''gpt-3.5-turbo'' | Some n \<Rightarrow> n),
                     rq_system = (case sc_system_message config of
                                    None \<Rightarrow> ''You are a helpful assistant.'' | Some s \<Rightarrow> s),
                     rq_user = q_text q,
                     rq_temperature = (case mc_temperature m of None \<Rightarrow> 0 | Some t \<Rightarrow> t) \<rparr>) rows) models),
               shown_temperatures = shown_temperatures w
                 @ map (\<lambda>m. case mc_temperature m of None \<Rightarrow> 7 / 10 | Some t \<Rightarrow> t) models \<rparr>"
  (is "?L \<longleftrightarrow> (\<exists>answers. ?A answers \<and> ?W answers) \<and> ?T \<and> ?M \<and> ?S")
proof -
  let ?k = "length (gen_requests w)"
  let ?N = "length rows"
  let ?sm = "sc_system_message config"
  let ?res = "map (\<lambda>j. (model_name_of (models ! j), concat (blocks_from w (?k + j * ?N) rows)))
                [0..<length models]"
  let ?w' = "\<lparr> gen_reply = gen_reply w,
             gen_requests = gen_requests w @ concat (map (requests_of ?sm rows) models),
             shown_temperatures = shown_temperatures w @ map shown_of models \<rparr>"
  have loop: "run_test_suite env w = process_models env w ?sm rows models []"
    by (rule run_test_suite_loop[OF assms])
  have req: "map (requests_of ?sm rows) models = map (\<lambda>m. map (\<lambda>q.
                   \<lparr> rq_model = (case mc_name m of None \<Rightarrow> ''gpt-3.5-turbo'' | Some n \<Rightarrow> n),
                     rq_system = (case sc_system_message config of
                                    None \<Rightarrow> ''You are a helpful assistant.'' | Some s \<Rightarrow> s),
                     rq_user = q_text q,
                     rq_temperature = (case mc_temperature m of None \<Rightarrow> 0 | Some t \<Rightarrow> t) \<rparr>) rows) models"
    by (rule map_cong[OF refl]) (rule requests_of_explicit)
  have sh: "map shown_of models
            = map (\<lambda>m. case mc_temperature m of None \<Rightarrow> 7 / 10 | Some t \<Rightarrow> t) models"
    by (rule map_cong[OF refl]) (rule shown_of_def)
  have nth_res: "?res ! j = (model_name_of (models ! j), concat (blocks_from w (?k + j * ?N) rows))"
    if "j < length models" for j
    using that by simp
  have iff: "?L \<longleftrightarrow>
      (\<forall>j < length models. replies_ok w (?k + j * ?N) ?N)
      \<and> (\<forall>j < length models. write_transcript env (model_name_of (models ! j))
             (concat (blocks_from w (?k + j * ?N) rows)) = None)
      \<and> ?M \<and> written = ?res \<and> w' = ?w'"
    unfolding loop process_models_iff append_Nil ..
  show ?thesis
  proof
    assume L: ?L
    note pmall = iffD1[OF iff L]
    note pm1 = pmall[THEN conjunct1]
    note pm2 = pmall[THEN conjunct2, THEN conjunct1]
    note pm3 = pmall[THEN conjunct2, THEN conjunct2, THEN conjunct1]
    note pm4 = pmall[THEN conjunct2, THEN conjunct2, THEN conjunct2, THEN conjunct1]
    note pm5 = pmall[THEN conjunct2, THEN conjunct2, THEN conjunct2, THEN conjunct2]
    let ?ans = "\<lambda>j i. answer_at w (?k + j * ?N + i)"
    from pm1 have A: "?A ?ans"
      by (simp only: replies_ok_answers)
    have W: "?W ?ans"
      unfolding pm4 by (rule transcripts_explicit[OF A])
    have T: ?T
    proof (intro allI impI)
      fix j assume j: "j < length models"
      from pm2 j have "write_transcript env (model_name_of (models ! j))
             (concat (blocks_from w (?k + j * ?N) rows)) = None"
        by blast
      then show "write_transcript env (fst (written ! j)) (snd (written ! j)) = None"
        unfolding pm4 nth_res[OF j] fst_conv snd_conv .
    qed
    have S: "?S" unfolding pm5 req sh ..
    have "\<exists>answers. ?A answers \<and> ?W answers"
      by (rule exI[of _ ?ans]) (rule conjI[OF A W])
    then show "(\<exists>answers. ?A answers \<and> ?W answers) \<and> ?T \<and> ?M \<and> ?S"
      using T pm3 S by (intro conjI)
  next
    assume R: "(\<exists>answers. ?A answers \<and> ?W answers) \<and> ?T \<and> ?M \<and> ?S"
    note T = R[THEN conjunct2, THEN conjunct1]
    note M = R[THEN conjunct2, THEN conjunct2, THEN conjunct1]
    note S' = R[THEN conjunct2, THEN conjunct2, THEN conjunct2]
    from R[THEN conjunct1] obtain answers where AW: "?A answers \<and> ?W answers" ..
    note A = AW[THEN conjunct1]
    note W = AW[THEN conjunct2]
    have res: "written = ?res"
      unfolding W by (rule transcripts_explicit[OF A, symmetric])
    have ok: "\<forall>j < length models. replies_ok w (?k + j * ?N) ?N"
      unfolding replies_ok_def
    proof (intro allI impI)
      fix j i assume "j < length models" "i < ?N"
      with A have "gen_reply w (?k + j * ?N + i) = Inr (answers j i)" by simp
      then show "\<exists>a. gen_reply w (?k + j * ?N + i) = Inr a" ..
    qed
    have wr: "\<forall>j < length models. write_transcript env (model_name_of (models ! j))
             (concat (blocks_from w (?k + j * ?N) rows)) = None"
    proof (intro allI impI)
      fix j assume j: "j < length models"
      from T j have "write_transcript env (fst (written ! j)) (snd (written ! j)) = None"
        by blast
      then show "write_transcript env (model_name_of (models ! j))
             (concat (blocks_from w (?k + j * ?N) rows)) = None"
        unfolding res nth_res[OF j] fst_conv snd_conv .
    qed
    have w'eq: "w' = ?w'" unfolding S' req sh ..
    show ?L
      by (rule iffD2[OF iff]) (intro conjI ok wr M res w'eq)
  qed
qed


theorem transcript_one_block_per_question_witness:
  "run_test_suite
     \<lparr> suite_dir_exists = True,
       config_file = Some \<lparr> sc_api = Some \<lparr> base_url = Some ''http://localhost:1234/v1'',
                                           api_key_env = None, api_key_default = None \<rparr>,
                            sc_models = Some [\<lparr> mc_name = Some ''m'', mc_temperature = None \<rparr>],
                            sc_questions_file = None, sc_system_message = None \<rparr>,
       question_files = (\<lambda>f. if f = ''questions.csv''
          then Some [\<lparr> q_id = ''1'', q_section = ''Pods'', q_text = ''Q1?'', q_expected = ''E1'' \<rparr>,
                     \<lparr> q_id = ''2'', q_section = ''Nodes'', q_text = ''Q2?'', q_expected = ''E2'' \<rparr>]
          else None),
       write_transcript = (\<lambda>name output. None),
       write_manifest = None \<rparr>
     \<lparr> gen_reply = (\<lambda>n. Inr (if n = 0 then Some ''A1'' else None)),
       gen_requests = [], shown_temperatures = [] \<rparr>
   = (Inr [(''m'',
            ''---'' @ [CHR 0x0A] @ ''NO. 1 - Pods'' @ [CHR 0x0A] @ ''QUESTION: Q1?'' @ [CHR 0x0A]
            @ ''EXPECTED ANSWER: E1'' @ [CHR 0x0A] @ ''ACTUAL ANSWER: A1'' @ [CHR 0x0A]
            @ ''---'' @ [CHR 0x0A] @ ''NO. 2 - Nodes'' @ [CHR 0x0A] @ ''QUESTION: Q2?'' @ [CHR 0x0A]
            @ ''EXPECTED ANSWER: E2'' @ [CHR 0x0A] @ ''ACTUAL ANSWER: None'' @ [CHR 0x0A])],
      \<lparr> gen_reply = (\<lambda>n. Inr (if n = 0 then Some ''A1'' else None)),
        gen_requests =
          [\<lparr> rq_model = ''m'', rq_system = ''You are a helpful assistant.'', rq_user = ''Q1?'',
             rq_temperature = 0 \<rparr>,
           \<lparr> rq_model = ''m'', rq_system = ''You are a helpful assistant.'', rq_user = ''Q2?'',
             rq_temperature = 0 \<rparr>],
        shown_temperatures = [7 / 10] \<rparr>)"
proof -
  let ?rows = "[\<lparr> q_id = ''1'', q_section = ''Pods'', q_text = ''Q1?'', q_expected = ''E1'' \<rparr>,
                \<lparr> q_id = ''2'', q_section = ''Nodes'', q_text = ''Q2?'', q_expected = ''E2'' \<rparr>]"
  let ?models = "[\<lparr> mc_name = Some ''m'', mc_temperature = None \<rparr>]"
  let ?api = "\<lparr> base_url = Some ''http://localhost:1234/v1'', api_key_env = None, api_key_default = None \<rparr>"
  let ?config = "\<lparr> sc_api = Some ?api, sc_models = Some ?models,
                   sc_questions_file = None, sc_system_message = None \<rparr>"
  show ?thesis
    by (rule iffD2[OF transcript_one_block_per_question[where config = ?config and api = ?api
            and url = "''http://localhost:1234/v1''" and models = ?models and rows = ?rows]])
       (simp_all add: upt_rec[of 0] upt_rec[of 1] upt_rec[of 2]
          exI[of _ "\<lambda>j i. if i = 0 then Some ''A1'' else None"])
qed


subsection \<open>Claim C9: a setup error stops the run before any generation call\<close>

text \<open>
  Claim C9. When the suite directory or the configuration file is missing, when no model
  is configured (the key is absent or the list is empty), or when the question source
  file is missing, \<open>run_test_suite\<close> ends with an exception and leaves the world as it
  found it: no request has been added to the requests sent.
\<close>

theorem setup_error_contacts_no_model:
  assumes "\<not> suite_dir_exists env \<or> config_file env = None
           \<or> (\<exists>config. config_file env = Some config
                 \<and> (sc_models config = None \<or> sc_models config = Some []
                    \<or> question_files env (case sc_questions_file config of
                          None \<Rightarrow> ''questions.csv'' | Some f \<Rightarrow> f) = None))"
  shows "(\<exists>e. run_test_suite env w = (Inl e, w))
         \<and> gen_requests (snd (run_test_suite env w)) = gen_requests w"
  using assms
  by (auto simp: run_test_suite_def Let_def split: option.splits)

theorem setup_error_contacts_no_model_witness:
  "(\<exists>e. run_test_suite
      \<lparr>suite_dir_exists = True,
       config_file = Some \<lparr>sc_api = Some \<lparr>base_url = Some ''http://localhost:1234/v1'',
                                   api_key_env = None, api_key_default = None\<rparr>,
                           sc_models = Some [\<lparr>mc_name = Some ''m'', mc_temperature = None\<rparr>],
                           sc_questions_file = None, sc_system_message = None\<rparr>,
       question_files = (\<lambda>f. None),
       write_transcript = (\<lambda>name output. None), write_manifest = None\<rparr>
      \<lparr>gen_reply = (\<lambda>n. Inr (Some ''A'')), gen_requests = [], shown_temperatures = []\<rparr>
    = (Inl e, \<lparr>gen_reply = (\<lambda>n. Inr (Some ''A'')), gen_requests = [], shown_temperatures = []\<rparr>))"
  by (rule setup_error_contacts_no_model[THEN conjunct1]) simp



subsection \<open>Claim C10: an omitted temperature is sent as 0.0 and displayed as 0.7\<close>






section \<open>Properties of score-results.py\<close>

subsection \<open>The search finds the first occurrence of the pattern\<close>


lemma rev_upt_from_1: "0 < k \<Longrightarrow> rev [1..<Suc k] = k # rev [1..<k]"
  by simp

lemma hd_drop_in_run:
  assumes "n < length (takeWhile P s)"
  shows "drop n s \<noteq> [] \<and> P (hd (drop n s))"
proof -
  have len: "n < length s"
    using assms length_takeWhile_le[of P s] by linarith
  have "takeWhile P s ! n = s ! n"
    using assms by (rule takeWhile_nth)
  moreover have "P (takeWhile P s ! n)"
    using assms by (metis nth_mem set_takeWhileD)
  ultimately show ?thesis
    using len by (simp add: hd_drop_conv_nth)
qed

lemma rmatch_Seq_Plus:
  assumes "\<And>t caps'. t \<noteq> [] \<Longrightarrow> in_class cl (hd t) \<Longrightarrow> rmatch r t caps' = []"
  shows "rmatch (Seq (Plus cl) r) s caps =
           (if takeWhile (in_class cl) s = [] then []
            else rmatch r (dropWhile (in_class cl) s) caps)"
proof (cases "takeWhile (in_class cl) s = []")
  case True
  then show ?thesis by simp
next
  case False
  define k where "k = length (takeWhile (in_class cl) s)"
  have k: "0 < k" using False by (simp add: k_def)
  have short: "rmatch r (drop n s) caps = []" if "n \<in> set (rev [1..<k])" for n
  proof -
    from that have "n < length (takeWhile (in_class cl) s)" by (simp add: k_def)
    from hd_drop_in_run[OF this] show ?thesis by (simp add: assms)
  qed
  have "rmatch (Seq (Plus cl) r) s caps
          = concat (map (\<lambda>n. rmatch r (drop n s) caps) (rev [1..<Suc k]))"
    by (simp add: k_def comp_def del: upt_Suc)
  also have "\<dots> = rmatch r (drop k s) caps @ concat (map (\<lambda>n. rmatch r (drop n s) caps) (rev [1..<k]))"
    by (simp only: rev_upt_from_1[OF k] list.map concat.simps)
  also have "concat (map (\<lambda>n. rmatch r (drop n s) caps) (rev [1..<k])) = []"
    using short by simp
  also have "drop k s = dropWhile (in_class cl) s"
    by (simp add: k_def dropWhile_eq_drop)
  finally show ?thesis using False by simp
qed

lemma rmatch_Group_Plus:
  "rmatch (Group (Plus cl)) s caps =
     map (\<lambda>n. (drop n s, caps @ [take n s])) (rev [1..<Suc (length (takeWhile (in_class cl) s))])"
proof -
  have "n \<le> length s" if "n \<in> set (rev [1..<Suc (length (takeWhile (in_class cl) s))])" for n
    using that length_takeWhile_le[of "in_class cl" s] by auto
  then show ?thesis
    by (auto simp del: upt_Suc simp: comp_def)
qed

lemma rmatch_Seq_Group_Plus:
  assumes "\<And>t caps'. t \<noteq> [] \<Longrightarrow> in_class cl (hd t) \<Longrightarrow> rmatch r t caps' = []"
  shows "rmatch (Seq (Group (Plus cl)) r) s caps =
           (if takeWhile (in_class cl) s = [] then []
            else rmatch r (dropWhile (in_class cl) s) (caps @ [takeWhile (in_class cl) s]))"
proof (cases "takeWhile (in_class cl) s = []")
  case True
  then show ?thesis by simp
next
  case False
  define k where "k = length (takeWhile (in_class cl) s)"
  have k: "0 < k" using False by (simp add: k_def)
  have short: "rmatch r (drop n s) (caps @ [take n s]) = []" if "n \<in> set (rev [1..<k])" for n
  proof -
    from that have "n < length (takeWhile (in_class cl) s)" by (simp add: k_def)
    from hd_drop_in_run[OF this] show ?thesis by (simp add: assms)
  qed
  have a: "rmatch (Seq (Group (Plus cl)) r) s caps
          = concat (map (\<lambda>n. rmatch r (drop n s) (caps @ [take n s])) (rev [1..<Suc k]))"
    unfolding rmatch.simps(3) rmatch_Group_Plus
    by (simp add: k_def comp_def del: upt_Suc)
  have b: "concat (map (\<lambda>n. rmatch r (drop n s) (caps @ [take n s])) (rev [1..<Suc k]))
           = rmatch r (drop k s) (caps @ [take k s])
             @ concat (map (\<lambda>n. rmatch r (drop n s) (caps @ [take n s])) (rev [1..<k]))"
    by (simp only: rev_upt_from_1[OF k] list.map concat.simps)
  have c: "concat (map (\<lambda>n. rmatch r (drop n s) (caps @ [take n s])) (rev [1..<k])) = []"
    using short by simp
  have d: "drop k s = dropWhile (in_class cl) s"
    by (simp add: k_def dropWhile_eq_drop)
  have e: "take k s = takeWhile (in_class cl) s"
    unfolding k_def by (rule takeWhile_eq_take[symmetric])
  show ?thesis
    unfolding a b c d e using False by simp
qed

lemma rmatch_Seq_Lit:
  "rmatch (Seq (Lit lit) r) s caps =
     (if prefix lit s then rmatch r (drop (length lit) s) caps else [])"
  by simp


lemma space_not_digit: "is_space c \<Longrightarrow> \<not> is_digit c"
  by (auto simp: is_space_def is_digit_def)

lemma o_not_space: "\<not> is_space CHR ''o''"
  by (simp add: is_space_def)

lemma split_run:
  assumes "list_all P a" and "b = [] \<or> \<not> P (hd b)"
  shows "takeWhile P (a @ b) = a" and "dropWhile P (a @ b) = b"
proof -
  have b: "takeWhile P b = []" "dropWhile P b = b"
    using assms(2) by (cases b; simp)+
  from assms(1) have all: "\<forall>x \<in> set a. P x"
    by (simp add: list_all_iff)
  show "takeWhile P (a @ b) = a"
    using all b by (simp add: takeWhile_append2)
  show "dropWhile P (a @ b) = b"
    using all b by (simp add: dropWhile_append2)
qed

lemma no_digits_at_space:
  "t \<noteq> [] \<Longrightarrow> in_class Whitespace (hd t) \<Longrightarrow> rmatch (Group (Plus Digit)) t caps = []"
  by (cases t) (auto simp: space_not_digit)

lemma no_lit_o_at_space:
  "t \<noteq> [] \<Longrightarrow> in_class Whitespace (hd t) \<Longrightarrow> rmatch (Seq (Lit (CHR ''o'' # l)) r) t caps = []"
  using o_not_space by (cases t) auto

lemma no_spaces_at_digit:
  "t \<noteq> [] \<Longrightarrow> in_class Digit (hd t) \<Longrightarrow> rmatch (Seq (Plus Whitespace) r) t caps = []"
  using space_not_digit by (cases t) auto

lemma step_digits:
  "rmatch (Seq (Group (Plus Digit)) (Seq (Plus Whitespace) r)) s caps =
     (if takeWhile is_digit s = [] then []
      else rmatch (Seq (Plus Whitespace) r) (dropWhile is_digit s) (caps @ [takeWhile is_digit s]))"
proof -
  have "in_class Digit = is_digit" by (rule ext) simp
  with rmatch_Seq_Group_Plus[of Digit "Seq (Plus Whitespace) r" s caps, OF no_spaces_at_digit]
  show ?thesis by simp
qed

lemma step_spaces_lit:
  "rmatch (Seq (Plus Whitespace) (Seq (Lit (CHR ''o'' # l)) r)) s caps =
     (if takeWhile is_space s = [] then []
      else rmatch (Seq (Lit (CHR ''o'' # l)) r) (dropWhile is_space s) caps)"
proof -
  have "in_class Whitespace = is_space" by (rule ext) simp
  with rmatch_Seq_Plus[of Whitespace "Seq (Lit (CHR ''o'' # l)) r" s caps, OF no_lit_o_at_space]
  show ?thesis by simp
qed

lemma step_spaces_digits:
  "rmatch (Seq (Plus Whitespace) (Group (Plus Digit))) s caps =
     (if takeWhile is_space s = [] then []
      else rmatch (Group (Plus Digit)) (dropWhile is_space s) caps)"
proof -
  have "in_class Whitespace = is_space" by (rule ext) simp
  with rmatch_Seq_Plus[of Whitespace "Group (Plus Digit)" s caps, OF no_digits_at_space]
  show ?thesis by simp
qed

lemma step_last:
  "rmatch (Group (Plus Digit)) s caps =
     map (\<lambda>n. (drop n s, caps @ [take n s])) (rev [1..<Suc (length (takeWhile is_digit s))])"
proof -
  have "in_class Digit = is_digit" by (rule ext) simp
  with rmatch_Group_Plus[of Digit s caps] show ?thesis by simp
qed

lemma rmatch_score_pattern:
  "rmatch score_pattern t [] =
     (if shape_ok t
      then map (\<lambda>n. (drop n (tail6 t), [takeWhile is_digit t, take n (tail6 t)]))
               (rev [1..<Suc (length (takeWhile is_digit (tail6 t)))])
      else [])"
  unfolding score_pattern_def
  by (simp only: step_digits step_spaces_lit step_spaces_digits rmatch_Seq_Lit step_last)
     (simp add: shape_ok_def tail6_def Let_def del: upt_Suc)


lemma is_digit_iff: "is_digit c \<longleftrightarrow> c \<in> set ''0123456789''"
  by (simp only: is_digit_def)

lemma is_space_iff:
  "is_space c \<longleftrightarrow> c \<in> {CHR 0x09, CHR 0x0A, CHR 0x0B, CHR 0x0C, CHR 0x0D, CHR 0x1C, CHR 0x1D,
                        CHR 0x1E, CHR 0x1F, CHR 0x20, CHR 0x85, CHR 0xA0}"
  by (simp only: is_space_def list.set)

lemma all_digits_iff: "all_digits ds \<longleftrightarrow> ds \<noteq> [] \<and> list_all is_digit ds"
  by (simp only: all_digits_def list_all_iff Ball_def is_digit_iff subset_iff)

lemma all_spaces_iff: "all_spaces ws \<longleftrightarrow> ws \<noteq> [] \<and> list_all is_space ws"
  by (simp only: all_spaces_def list_all_iff Ball_def is_space_iff subset_iff)

lemma all_digits_takeWhile: "takeWhile is_digit t \<noteq> [] \<Longrightarrow> all_digits (takeWhile is_digit t)"
  by (auto simp: all_digits_iff list_all_iff dest: set_takeWhileD)

lemma all_spaces_takeWhile: "takeWhile is_space t \<noteq> [] \<Longrightarrow> all_spaces (takeWhile is_space t)"
  by (auto simp: all_spaces_iff list_all_iff dest: set_takeWhileD)

lemma prefix_drop: "prefix l r \<Longrightarrow> r = l @ drop (length l) r"
  by (auto simp: prefix_def)

lemma shape_decompose:
  assumes "shape_ok t"
  shows "\<exists>w1 w2 w3. all_digits (takeWhile is_digit t) \<and> all_spaces w1 \<and> all_spaces w2 \<and> all_spaces w3
           \<and> t = takeWhile is_digit t @ w1 @ ''out'' @ w2 @ ''of'' @ w3 @ tail6 t"
proof -
  define r1 where "r1 = dropWhile is_digit t"
  define r2 where "r2 = dropWhile is_space r1"
  define r3 where "r3 = drop (length ''out'') r2"
  define r4 where "r4 = dropWhile is_space r3"
  define r5 where "r5 = drop (length ''of'') r4"
  from assms have ok: "takeWhile is_digit t \<noteq> []" "takeWhile is_space r1 \<noteq> []" "prefix ''out'' r2"
      "takeWhile is_space r3 \<noteq> []" "prefix ''of'' r4" "takeWhile is_space r5 \<noteq> []"
    unfolding shape_ok_def Let_def r1_def r2_def r3_def r4_def r5_def by blast+
  have t6: "tail6 t = dropWhile is_space r5"
    by (simp only: tail6_def r1_def r2_def r3_def r4_def r5_def)
  have "t = takeWhile is_digit t @ r1" by (simp add: r1_def)
  also have "r1 = takeWhile is_space r1 @ r2" by (simp add: r2_def)
  also have "r2 = ''out'' @ r3" unfolding r3_def by (rule prefix_drop[OF ok(3)])
  also have "r3 = takeWhile is_space r3 @ r4" by (simp add: r4_def)
  also have "r4 = ''of'' @ r5" unfolding r5_def by (rule prefix_drop[OF ok(5)])
  also have "r5 = takeWhile is_space r5 @ tail6 t" by (simp add: t6)
  finally have "t = takeWhile is_digit t @ takeWhile is_space r1 @ ''out'' @ takeWhile is_space r3
                     @ ''of'' @ takeWhile is_space r5 @ tail6 t" .
  with ok all_digits_takeWhile all_spaces_takeWhile show ?thesis by blast
qed

lemma shape_complete:
  assumes "all_digits d1" "all_spaces w1" "all_spaces w2" "all_spaces w3"
    and u: "u \<noteq> []" "is_digit (hd u)"
  shows "shape_ok (d1 @ w1 @ ''out'' @ w2 @ ''of'' @ w3 @ u)
         \<and> tail6 (d1 @ w1 @ ''out'' @ w2 @ ''of'' @ w3 @ u) = u
         \<and> takeWhile is_digit (d1 @ w1 @ ''out'' @ w2 @ ''of'' @ w3 @ u) = d1"
proof -
  let ?r5 = "w3 @ u"
  let ?r4 = "''of'' @ ?r5"
  let ?r3 = "w2 @ ?r4"
  let ?r2 = "''out'' @ ?r3"
  let ?r1 = "w1 @ ?r2"
  from assms have ne: "d1 \<noteq> []" "w1 \<noteq> []" "w2 \<noteq> []" "w3 \<noteq> []"
    and all: "list_all is_digit d1" "list_all is_space w1" "list_all is_space w2" "list_all is_space w3"
    by (simp_all add: all_digits_iff all_spaces_iff)
  have w1_hd: "\<not> is_digit (hd ?r1)"
    using ne(2) all(2) by (cases w1) (auto simp: space_not_digit)
  have u_hd: "\<not> is_space (hd u)"
    using u space_not_digit by blast
  have a: "takeWhile is_digit (d1 @ ?r1) = d1" "dropWhile is_digit (d1 @ ?r1) = ?r1"
    using split_run[OF all(1), of ?r1] w1_hd by blast+
  have b: "takeWhile is_space ?r1 = w1" "dropWhile is_space ?r1 = ?r2"
    using split_run[OF all(2), of ?r2] o_not_space by simp_all
  have c: "takeWhile is_space ?r3 = w2" "dropWhile is_space ?r3 = ?r4"
    using split_run[OF all(3), of ?r4] o_not_space by simp_all
  have d: "takeWhile is_space ?r5 = w3" "dropWhile is_space ?r5 = u"
    using split_run[OF all(4), of u] u_hd by blast+
  have e: "drop (length ''out'') ?r2 = ?r3" "drop (length ''of'') ?r4 = ?r5"
    by simp_all
  have p: "prefix ''out'' ?r2" "prefix ''of'' ?r4"
    by simp_all
  show ?thesis
    unfolding shape_ok_def tail6_def Let_def
    by (simp only: a b c d e p ne) simp
qed


lemma rmatch_score_pattern_complete:
  assumes "score_text m d1 d2" and rest: "rest = [] \<or> \<not> is_digit (hd rest)"
  shows "\<exists>xs. rmatch score_pattern (m @ rest) [] = (rest, [d1, d2]) # xs"
proof -
  from assms(1) obtain w1 w2 w3 where
    parts: "all_digits d1" "all_spaces w1" "all_spaces w2" "all_spaces w3" "all_digits d2"
    and m: "m = d1 @ w1 @ ''out'' @ w2 @ ''of'' @ w3 @ d2"
    unfolding score_text_def by blast
  let ?u = "d2 @ rest"
  from parts(5) have d2: "d2 \<noteq> []" "list_all is_digit d2"
    by (simp_all add: all_digits_iff)
  then have u: "?u \<noteq> []" "is_digit (hd ?u)"
    by (cases d2; simp)+
  have t: "m @ rest = d1 @ w1 @ ''out'' @ w2 @ ''of'' @ w3 @ ?u"
    by (simp add: m)
  from shape_complete[OF parts(1-4) u]
  have sh: "shape_ok (m @ rest)" "tail6 (m @ rest) = ?u" "takeWhile is_digit (m @ rest) = d1"
    unfolding t by blast+
  have run: "takeWhile is_digit ?u = d2"
    using split_run(1)[OF d2(2) rest] .
  have k: "0 < length d2" using d2(1) by simp
  show ?thesis
    unfolding rmatch_score_pattern sh run
    by (simp only: sh(1) if_True rev_upt_from_1[OF k] list.map) simp
qed

lemma rmatch_score_pattern_sound:
  assumes "rmatch score_pattern t [] = (rest, caps) # xs"
  shows "\<exists>m d1 d2. caps = [d1, d2] \<and> t = m @ rest \<and> score_text m d1 d2
           \<and> (rest = [] \<or> \<not> is_digit (hd rest))"
proof -
  define u where "u = tail6 t"
  define k where "k = length (takeWhile is_digit u)"
  from assms have sh: "shape_ok t"
    by (auto simp: rmatch_score_pattern split: if_splits)
  have k: "0 < k"
  proof (rule ccontr)
    assume "\<not> 0 < k"
    then have "rmatch score_pattern t [] = []"
      by (simp add: rmatch_score_pattern k_def u_def)
    with assms show False by simp
  qed
  from assms have hd: "(rest, caps) = (drop k u, [takeWhile is_digit t, take k u])"
    unfolding rmatch_score_pattern
    by (simp only: sh if_True u_def[symmetric] k_def[symmetric] rev_upt_from_1[OF k] list.map) simp
  have tk: "take k u = takeWhile is_digit u" "drop k u = dropWhile is_digit u"
    unfolding k_def by (rule takeWhile_eq_take[symmetric], rule dropWhile_eq_drop[symmetric])
  from k have ne: "takeWhile is_digit u \<noteq> []" by (simp add: k_def)
  from shape_decompose[OF sh] obtain w1 w2 w3 where
    parts: "all_digits (takeWhile is_digit t)" "all_spaces w1" "all_spaces w2" "all_spaces w3"
    and t: "t = takeWhile is_digit t @ w1 @ ''out'' @ w2 @ ''of'' @ w3 @ u"
    unfolding u_def by blast
  define m where "m = takeWhile is_digit t @ w1 @ ''out'' @ w2 @ ''of'' @ w3 @ takeWhile is_digit u"
  have st: "score_text m (takeWhile is_digit t) (takeWhile is_digit u)"
    unfolding score_text_def m_def using parts all_digits_takeWhile[OF ne] by blast
  have "takeWhile is_digit t @ w1 @ ''out'' @ w2 @ ''of'' @ w3 @ u
          = m @ dropWhile is_digit u"
    unfolding m_def by (simp del: takeWhile_dropWhile_id add: takeWhile_dropWhile_id[of is_digit u])
  with t have eq: "t = m @ dropWhile is_digit u" by simp
  have nd: "dropWhile is_digit u = [] \<or> \<not> is_digit (hd (dropWhile is_digit u))"
    using hd_dropWhile by blast
  from hd tk have r: "rest = dropWhile is_digit u"
    and c: "caps = [takeWhile is_digit t, takeWhile is_digit u]"
    by simp_all
  show ?thesis
    unfolding r c using st eq nd by blast
qed

lemma rmatch_score_pattern_Nil_iff:
  "rmatch score_pattern t [] = [] \<longleftrightarrow> \<not> (\<exists>m d1 d2. score_text m d1 d2 \<and> prefix m t)"
proof
  assume nil: "rmatch score_pattern t [] = []"
  show "\<not> (\<exists>m d1 d2. score_text m d1 d2 \<and> prefix m t)"
  proof
    assume "\<exists>m d1 d2. score_text m d1 d2 \<and> prefix m t"
    then obtain m d1 d2 r where st: "score_text m d1 d2" and t: "t = m @ r"
      by (auto simp: prefix_def)
    from st obtain w1 w2 w3 where
      parts: "all_digits d1" "all_spaces w1" "all_spaces w2" "all_spaces w3" "all_digits d2"
      and m: "m = d1 @ w1 @ ''out'' @ w2 @ ''of'' @ w3 @ d2"
      unfolding score_text_def by blast
    let ?d2 = "d2 @ takeWhile is_digit r"
    have "all_digits ?d2"
      using parts(5) by (auto simp: all_digits_iff list_all_iff dest: set_takeWhileD)
    then have "score_text (m @ takeWhile is_digit r) d1 ?d2"
      unfolding score_text_def using parts m by auto
    moreover have "dropWhile is_digit r = [] \<or> \<not> is_digit (hd (dropWhile is_digit r))"
      using hd_dropWhile by blast
    ultimately obtain xs where
      "rmatch score_pattern ((m @ takeWhile is_digit r) @ dropWhile is_digit r) []
         = (dropWhile is_digit r, [d1, ?d2]) # xs"
      using rmatch_score_pattern_complete by blast
    with nil t show False by simp
  qed
next
  assume none: "\<not> (\<exists>m d1 d2. score_text m d1 d2 \<and> prefix m t)"
  show "rmatch score_pattern t [] = []"
  proof (cases "rmatch score_pattern t []")
    case Nil
    then show ?thesis .
  next
    case (Cons x xs)
    obtain rest caps where "x = (rest, caps)" by (cases x)
    with Cons rmatch_score_pattern_sound[of t rest caps xs] none
    show ?thesis by (auto simp: prefix_def)
  qed
qed



lemma re_search_Some_iff:
  "re_search r s = Some caps \<longleftrightarrow>
     (\<exists>i \<le> length s. (\<forall>j<i. rmatch r (drop j s) [] = [])
        \<and> (\<exists>rest xs. rmatch r (drop i s) [] = (rest, caps) # xs))"
  (is "?L s \<longleftrightarrow> ?R s")
proof (induction s)
  case Nil
  then show ?case by (auto split: list.splits)
next
  case (Cons c cs)
  show ?case
  proof (cases "rmatch r (c # cs) []")
    case Nil
    have "?R (c # cs) \<longleftrightarrow> ?R cs"
    proof
      assume "?R (c # cs)"
      then obtain i rest xs where i: "i \<le> length (c # cs)"
        "\<forall>j<i. rmatch r (drop j (c # cs)) [] = []"
        "rmatch r (drop i (c # cs)) [] = (rest, caps) # xs"
        by blast
      from i(3) Nil obtain i' where i': "i = Suc i'"
        by (cases i) auto
      have "\<forall>j<i'. rmatch r (drop j cs) [] = []"
        using i(2) i' by (metis Suc_less_eq drop_Suc_Cons)
      with i i' show "?R cs"
        by (intro exI[of _ i']) auto
    next
      assume "?R cs"
      then obtain i rest xs where i: "i \<le> length cs"
        "\<forall>j<i. rmatch r (drop j cs) [] = []"
        "rmatch r (drop i cs) [] = (rest, caps) # xs"
        by blast
      have "\<forall>j<Suc i. rmatch r (drop j (c # cs)) [] = []"
        using i(2) Nil by (auto simp: less_Suc_eq_0_disj)
      with i show "?R (c # cs)"
        by (intro exI[of _ "Suc i"]) auto
    qed
    with Nil Cons.IH show ?thesis by simp
  next
    case (Cons x xs)
    obtain rest caps' where x: "x = (rest, caps')" by (cases x)
    have "?R (c # cs) \<longleftrightarrow> caps = caps'"
    proof
      assume "?R (c # cs)"
      then obtain i rest' xs' where i: "\<forall>j<i. rmatch r (drop j (c # cs)) [] = []"
        "rmatch r (drop i (c # cs)) [] = (rest', caps) # xs'"
        by blast
      from i(1) Cons have "i = 0"
        by (cases i) auto
      with i(2) Cons x show "caps = caps'" by simp
    next
      assume "caps = caps'"
      with Cons x show "?R (c # cs)"
        by (intro exI[of _ 0]) auto
    qed
    with Cons x show ?thesis by auto
  qed
qed

lemma matches_at_iff:
  "i \<le> length s \<Longrightarrow> matches_at s i \<longleftrightarrow> rmatch score_pattern (drop i s) [] \<noteq> []"
  by (simp add: matches_at_def rmatch_score_pattern_Nil_iff)


lemma search_some_iff:
  "re_search score_pattern s = Some caps \<longleftrightarrow> (\<exists>d1 d2. caps = [d1, d2] \<and> first_score s d1 d2)"
proof
  assume "re_search score_pattern s = Some caps"
  then obtain i rest xs where i: "i \<le> length s"
    and before: "\<forall>j<i. rmatch score_pattern (drop j s) [] = []"
    and here: "rmatch score_pattern (drop i s) [] = (rest, caps) # xs"
    unfolding re_search_Some_iff by blast
  from rmatch_score_pattern_sound[OF here] obtain m d1 d2 where
    m: "caps = [d1, d2]" "drop i s = m @ rest" "score_text m d1 d2"
       "rest = [] \<or> \<not> is_digit (hd rest)"
    by blast
  have "\<forall>j<i. \<not> matches_at s j"
    using before i matches_at_iff by simp
  with i m show "\<exists>d1 d2. caps = [d1, d2] \<and> first_score s d1 d2"
    unfolding first_score_def is_digit_iff[symmetric] by blast
next
  assume "\<exists>d1 d2. caps = [d1, d2] \<and> first_score s d1 d2"
  then obtain d1 d2 i m rest where caps: "caps = [d1, d2]" and i: "i \<le> length s"
    and m: "drop i s = m @ rest" "score_text m d1 d2" "rest = [] \<or> \<not> is_digit (hd rest)"
    and before: "\<forall>j<i. \<not> matches_at s j"
    unfolding first_score_def is_digit_iff[symmetric] by blast
  from rmatch_score_pattern_complete[OF m(2,3)] obtain xs where
    "rmatch score_pattern (drop i s) [] = (rest, caps) # xs"
    unfolding m(1) caps by blast
  moreover have "\<forall>j<i. rmatch score_pattern (drop j s) [] = []"
    using before i matches_at_iff by simp
  ultimately show "re_search score_pattern s = Some caps"
    unfolding re_search_Some_iff using i by blast
qed

subsection \<open>Integers and whitespace\<close>


lemma py_int_snoc: "py_int (ds @ [c]) = 10 * py_int ds + digit_value c"
  by (simp add: py_int_def)

lemma decimal_snoc: "decimal (ds @ [c]) = 10 * decimal ds + (of_char c - 48)"
proof -
  let ?n = "length ds"
  have "decimal (ds @ [c])
        = (\<Sum>i < ?n. (of_char ((ds @ [c]) ! i) - 48 :: nat) * 10 ^ (?n - i)) + (of_char c - 48)"
    by (simp add: decimal_def)
  also have "(\<Sum>i < ?n. (of_char ((ds @ [c]) ! i) - 48 :: nat) * 10 ^ (?n - i))
        = (\<Sum>i < ?n. 10 * ((of_char (ds ! i) - 48 :: nat) * 10 ^ (?n - 1 - i)))"
  proof (rule sum.cong[OF refl])
    fix i assume "i \<in> {..<?n}"
    then have i: "i < ?n" by simp
    then have "?n - i = Suc (?n - 1 - i)" by simp
    then show "(of_char ((ds @ [c]) ! i) - 48 :: nat) * 10 ^ (?n - i)
               = 10 * ((of_char (ds ! i) - 48 :: nat) * 10 ^ (?n - 1 - i))"
      using i by (simp add: nth_append)
  qed
  also have "\<dots> = 10 * decimal ds"
    by (simp add: decimal_def sum_distrib_left)
  finally show ?thesis .
qed

lemma py_int_decimal: "py_int ds = decimal ds"
proof (induction ds rule: rev_induct)
  case Nil
  show ?case by (simp add: py_int_def decimal_def)
next
  case (snoc c ds)
  then show ?case
    by (simp add: py_int_snoc decimal_snoc digit_value_def)
qed



subsection \<open>Claim C2: output without a score\<close>







section \<open>Properties of the judge client and the scoring run\<close>


lemma consume_text_stream_eq:
  "consume_text_stream chunks fin acc =
     (if None \<in> set chunks then Inl TypeError
      else case fin of
             None \<Rightarrow> Inr (acc @ concat (map (\<lambda>c. case c of None \<Rightarrow> [] | Some t \<Rightarrow> t) chunks))
           | Some e \<Rightarrow> Inl e)"
proof (induction chunks arbitrary: acc)
  case Nil
  then show ?case by (cases fin) simp_all
next
  case (Cons c chunks)
  then show ?case by (cases c) (simp_all split: option.splits)
qed

lemma consume_chunks_eq:
  "consume_chunks chunks fin acc =
     (case fin of
        None \<Rightarrow> Inr (acc @ concat (map (\<lambda>c. case c of None \<Rightarrow> [] | Some t \<Rightarrow> t) chunks))
      | Some e \<Rightarrow> Inl e)"
proof (induction chunks arbitrary: acc)
  case Nil
  then show ?case by (cases fin) simp_all
next
  case (Cons c chunks)
  then show ?case by (cases c) (simp_all split: option.splits)
qed

subsection \<open>Claim C8: a failed stream falls back to one blocking call\<close>

text \<open>
  Claim C8. An evaluation first makes the streaming call. When the stream ends without
  an exception, the result is the concatenation of its chunks, and no other call is
  made. When the streaming attempt raises an exception of class \<open>Exception\<close>, at the
  call, at any chunk or at the end (for Anthropic also when a chunk is not a string),
  exactly one more call is made, the blocking one, with the same client, model, token
  limit, evaluation prompt and content, and its outcome, text or exception, is the
  outcome of the evaluation. A keyboard interrupt is not such a failure: it ends the
  evaluation at once.
\<close>

theorem streaming_falls_back_once:
  assumes "stream_reply w (length (judge_calls w)) = (chunks, fin)"
  shows "evaluate_results config w content =
     (case (if cfg_api config = Some ''anthropic'' \<and> None \<in> set chunks then Some TypeError else fin) of
        None \<Rightarrow>
          (Inr (Some (concat (map (\<lambda>c. case c of None \<Rightarrow> [] | Some text \<Rightarrow> text) chunks))),
           w\<lparr>judge_calls := judge_calls w @
             [\<lparr> jc_client = (if cfg_api config = Some ''anthropic'' then AnthropicClient else LocalClient),
                jc_streaming = True, jc_model = cfg_model config,
                jc_max_tokens = (if cfg_api config = Some ''anthropic'' then Some 4096 else None),
                jc_system = EVALUATION_PROMPT, jc_user = content \<rparr>]\<rparr>)
      | Some e \<Rightarrow>
          if e = KeyboardInterrupt
          then (Inl KeyboardInterrupt,
                w\<lparr>judge_calls := judge_calls w @
                  [\<lparr> jc_client = (if cfg_api config = Some ''anthropic'' then AnthropicClient else LocalClient),
                     jc_streaming = True, jc_model = cfg_model config,
                     jc_max_tokens = (if cfg_api config = Some ''anthropic'' then Some 4096 else None),
                     jc_system = EVALUATION_PROMPT, jc_user = content \<rparr>]\<rparr>)
          else (create_reply w (Suc (length (judge_calls w))),
                w\<lparr>judge_calls := judge_calls w @
                  [\<lparr> jc_client = (if cfg_api config = Some ''anthropic'' then AnthropicClient else LocalClient),
                     jc_streaming = True, jc_model = cfg_model config,
                     jc_max_tokens = (if cfg_api config = Some ''anthropic'' then Some 4096 else None),
                     jc_system = EVALUATION_PROMPT, jc_user = content \<rparr>,
                   \<lparr> jc_client = (if cfg_api config = Some ''anthropic'' then AnthropicClient else LocalClient),
                     jc_streaming = False, jc_model = cfg_model config,
                     jc_max_tokens = (if cfg_api config = Some ''anthropic'' then Some 4096 else None),
                     jc_system = EVALUATION_PROMPT, jc_user = content \<rparr>]\<rparr>))"
proof -
  have exc: "is_Exception e \<longleftrightarrow> e \<noteq> KeyboardInterrupt" for e
    by (cases e) simp_all
  show ?thesis
  proof (cases "cfg_api config = Some ''anthropic''")
    case True
    then show ?thesis
      using assms
      by (simp add: evaluate_results_def evaluate_with_anthropic_def consume_text_stream_eq Let_def exc
            split: option.splits)
  next
    case False
    then show ?thesis
      using assms
      by (simp add: evaluate_results_def evaluate_with_local_def consume_chunks_eq Let_def exc
            split: option.splits)
  qed
qed

theorem streaming_falls_back_once_witness:
  "stream_reply
     \<lparr> stream_reply = (\<lambda>n. ([Some ''58 out'', None, Some '' of''], Some (TransportError ''reset''))),
       create_reply = (\<lambda>n. Inr (Some ''58 out of 100'')), judge_calls = [] \<rparr>
     (length (judge_calls
       \<lparr> stream_reply = (\<lambda>n. ([Some ''58 out'', None, Some '' of''], Some (TransportError ''reset''))),
         create_reply = (\<lambda>n. Inr (Some ''58 out of 100'')), judge_calls = [] \<rparr>))
     = ([Some ''58 out'', None, Some '' of''], Some (TransportError ''reset''))
   \<and> evaluate_results
       \<lparr> cfg_api = Some ''local'', cfg_endpoint = None, cfg_model = Some ''judge'', cfg_repetitions = None \<rparr>
       \<lparr> stream_reply = (\<lambda>n. ([Some ''58 out'', None, Some '' of''], Some (TransportError ''reset''))),
         create_reply = (\<lambda>n. Inr (Some ''58 out of 100'')), judge_calls = [] \<rparr>
       ''transcript''
     = (Inr (Some ''58 out of 100''),
        \<lparr> stream_reply = (\<lambda>n. ([Some ''58 out'', None, Some '' of''], Some (TransportError ''reset''))),
          create_reply = (\<lambda>n. Inr (Some ''58 out of 100'')),
          judge_calls =
            [\<lparr> jc_client = LocalClient, jc_streaming = True, jc_model = Some ''judge'',
               jc_max_tokens = None, jc_system = EVALUATION_PROMPT, jc_user = ''transcript'' \<rparr>,
             \<lparr> jc_client = LocalClient, jc_streaming = False, jc_model = Some ''judge'',
               jc_max_tokens = None, jc_system = EVALUATION_PROMPT, jc_user = ''transcript'' \<rparr>] \<rparr>)"
proof -
  let ?w = "\<lparr> stream_reply = (\<lambda>n. ([Some ''58 out'', None, Some '' of''], Some (TransportError ''reset''))),
         create_reply = (\<lambda>n. Inr (Some ''58 out of 100'')), judge_calls = [] \<rparr>"
  have a: "stream_reply ?w (length (judge_calls ?w))
           = ([Some ''58 out'', None, Some '' of''], Some (TransportError ''reset''))"
    by simp
  from streaming_falls_back_once[OF a,
      of "\<lparr> cfg_api = Some ''local'', cfg_endpoint = None, cfg_model = Some ''judge'', cfg_repetitions = None \<rparr>"
         "''transcript''"] a
  show ?thesis by simp
qed



end
